theory Spec2Isabelle
  imports Main "HOL-Library.Word"
begin

unbundle bit_operations_syntax

section \<open>Data model of watcher.go\<close>

text \<open>
  \<^verbatim>\<open>type Op uint32\<close> with the five operation bits \<^verbatim>\<open>Create Op = 1 << iota\<close>,
  \<^verbatim>\<open>Write\<close>, \<^verbatim>\<open>Remove\<close>, \<^verbatim>\<open>Rename\<close>, \<^verbatim>\<open>Chmod\<close> and their union \<^verbatim>\<open>AllOps\<close>.
\<close>

type_synonym Op = "32 word"

definition Create :: Op where "Create = push_bit 0 1"
definition Write :: Op where "Write = push_bit 1 1"
definition Remove :: Op where "Remove = push_bit 2 1"
definition Rename :: Op where "Rename = push_bit 3 1"
definition Chmod :: Op where "Chmod = push_bit 4 1"

definition AllOps :: Op where
  "AllOps = Create OR Write OR Remove OR Rename OR Chmod"

lemmas Op_defs = Create_def Write_def Remove_def Rename_def Chmod_def AllOps_def

text \<open>The five single-bit operations, in the order of the constant block.\<close>

definition singleOps :: "Op list" where
  "singleOps = [Create, Write, Remove, Rename, Chmod]"

text \<open>\<^verbatim>\<open>watchPath\<close>: a single path added to the watcher.\<close>

record watchPath =
  path :: string
  pattern :: string
  ops :: Op
  isdir :: bool

text \<open>
  Errors. \<^verbatim>\<open>ErrWatcherClosed\<close> is the package's sentinel; \<^verbatim>\<open>Errorf\<close> stands for a value
  made by \<^verbatim>\<open>fmt.Errorf\<close> in this package; \<^verbatim>\<open>External\<close> is an error produced by the
  operating system, by fsnotify or by \<^verbatim>\<open>filepath.Match\<close>; \<^verbatim>\<open>StackErr e\<close> is the
  \<^verbatim>\<open>*stackerr.Error\<close> whose underlying error is \<open>e\<close>. A Go value of type \<^verbatim>\<open>error\<close>
  is an \<open>error option\<close>, \<open>None\<close> being \<^verbatim>\<open>nil\<close>.
\<close>

datatype error =
    ErrWatcherClosed
  | Errorf string
  | External string
  | StackErr error

text \<open>
  \<^verbatim>\<open>stackerr.Wrap\<close> (github.com/facebookgo/stackerr): a nil error is returned as nil, an
  error that already is a \<^verbatim>\<open>*stackerr.Error\<close> is returned itself, any other error is
  wrapped.
\<close>

fun wrapErr :: "error \<Rightarrow> error" where
  "wrapErr (StackErr e) = StackErr e"
| "wrapErr e = StackErr e"

fun Wrap :: "error option \<Rightarrow> error option" where
  "Wrap None = None"
| "Wrap (Some e) = Some (wrapErr e)"

text \<open>
  \<^verbatim>\<open>FileSystemWatcher\<close>. The fsnotify watcher is a value of an arbitrary type \<open>'w\<close>;
  \<open>close\<close> tells whether the channel \<^verbatim>\<open>close chan struct{}\<close> has been closed (nothing is
  ever sent on it). The mutex \<^verbatim>\<open>closedMu\<close> only serialises \<^verbatim>\<open>Close\<close>; calls are modelled
  one after the other.
\<close>

record 'w FileSystemWatcher =
  watcher :: 'w
  watchPaths :: "watchPath list"
  isclosed :: bool
  close :: bool

text \<open>\<^verbatim>\<open>fsnotify.Event\<close> and the package's \<^verbatim>\<open>Event\<close> wrapping it.\<close>

record fsnotifyEvent =
  evName :: string
  evOp :: Op

record Event =
  event :: fsnotifyEvent
  Name :: string
  Op :: Op

definition wrapEvent :: "fsnotifyEvent \<Rightarrow> Event" where
  "wrapEvent e = \<lparr>event = e, Name = evName e, Op = evOp e\<rparr>"

section \<open>The functions of path/filepath the package calls\<close>

text \<open>
  \<^verbatim>\<open>filepath.Clean\<close>, \<^verbatim>\<open>filepath.Dir\<close>, \<^verbatim>\<open>filepath.Split\<close> and \<^verbatim>\<open>filepath.Match\<close> belong
  to the Go standard library and depend on the platform. The package's functions take
  them as a parameter, so every theorem below holds for whatever these functions
  compute. \<^verbatim>\<open>Match\<close> returns the pair \<^verbatim>\<open>(matched bool, err error)\<close>. \<^verbatim>\<open>Join\<close> is
  \<^verbatim>\<open>filepath.Join\<close> on two elements, which \<^verbatim>\<open>filepath.Walk\<close> uses to name the entries
  of a directory.
\<close>

record pathlib =
  Clean :: "string \<Rightarrow> string"
  Dir :: "string \<Rightarrow> string"
  Split :: "string \<Rightarrow> string \<times> string"
  Match :: "string \<Rightarrow> string \<Rightarrow> bool \<times> error option"
  Join :: "string \<Rightarrow> string \<Rightarrow> string"

section \<open>Lookup and filters\<close>

text \<open>
  \<^verbatim>\<open>findWatchPath\<close>: the first loop returns the first entry whose cleaned path is the
  cleaned argument; only when that loop finds nothing does the second loop return the first
  entry whose cleaned path is the cleaned \<^verbatim>\<open>filepath.Dir\<close> of the argument. The result is
  a pointer to a copy of the entry, or nil.
\<close>

definition findWatchPath :: "pathlib \<Rightarrow> 'w FileSystemWatcher \<Rightarrow> string \<Rightarrow> watchPath option" where
  "findWatchPath L fw pth =
     (case find (\<lambda>p. Clean L pth = Clean L (path p)) (watchPaths fw) of
        Some p \<Rightarrow> Some p
      | None \<Rightarrow>
          find (\<lambda>p. Clean L (Dir L pth) = Clean L (path p)) (watchPaths fw))"

text \<open>
  \<^verbatim>\<open>filterByPattern\<close>. The \<^verbatim>\<open>fmt.Println(err)\<close> of the malformed-pattern branch writes to
  standard output and has no part in the result.
\<close>

definition filterByPattern :: "pathlib \<Rightarrow> 'w FileSystemWatcher \<Rightarrow> string \<Rightarrow> bool" where
  "filterByPattern L fw pth =
     (case findWatchPath L fw pth of
        None \<Rightarrow> False
      | Some p \<Rightarrow>
          if length (pattern p) = 0 then True
          else if \<not> isdir p then True
          else (case Match L (pattern p) (snd (Split L pth)) of
                  (match, err) \<Rightarrow>
                    if err \<noteq> None then False
                    else if match then True
                    else False))"

text \<open>\<^verbatim>\<open>filterByOp\<close>: \<^verbatim>\<open>p.ops&op == op\<close>.\<close>

definition filterByOp :: "pathlib \<Rightarrow> 'w FileSystemWatcher \<Rightarrow> string \<Rightarrow> Op \<Rightarrow> bool" where
  "filterByOp L fw pth op =
     (case findWatchPath L fw pth of
        None \<Rightarrow> False
      | Some p \<Rightarrow> if ops p AND op = op then True else False)"

section \<open>What the package calls outside itself\<close>

text \<open>
  A Go call either returns or panics. \<open>Panic\<close> carries the message of the run-time panic.
\<close>

datatype 'a outcome = Panic string | Ok 'a

text \<open>\<^verbatim>\<open>os.FileInfo\<close>, of which the package reads \<^verbatim>\<open>IsDir()\<close> only.\<close>

datatype FileInfo = FileInfo (IsDir: bool)

text \<open>
  The file tree \<^verbatim>\<open>filepath.Walk\<close> finds under a root: a file, or a directory with its
  entries by name, in the lexical order in which \<^verbatim>\<open>Walk\<close> reads them. Inside such a
  tree every \<^verbatim>\<open>Lstat\<close> and every directory read succeeds.
\<close>

datatype fsnode = FileNode | DirNode "(string \<times> fsnode) list"

text \<open>
  The operating system and fsnotify, as the package sees them:
  \<^item> \<open>statIsDir\<close>: \<^verbatim>\<open>os.Stat(path)\<close> followed by \<^verbatim>\<open>fi.IsDir()\<close>, or the error of \<^verbatim>\<open>Stat\<close>;
  \<^item> \<open>treeAt\<close>: the tree \<^verbatim>\<open>filepath.Walk\<close> finds at a root, or the error of its first
    \<^verbatim>\<open>os.Lstat(root)\<close>;
  \<^item> \<open>newWatcher\<close>: \<^verbatim>\<open>fsnotify.NewWatcher()\<close>;
  \<^item> \<open>wAdd\<close>, \<open>wRemove\<close>, \<open>wClose\<close>: the methods \<^verbatim>\<open>Add\<close>, \<^verbatim>\<open>Remove\<close> and \<^verbatim>\<open>Close\<close> of
    \<^verbatim>\<open>*fsnotify.Watcher\<close>, each returning its error and the watcher's new state.
\<close>

record 'w sys =
  statIsDir :: "string \<Rightarrow> error + bool"
  treeAt :: "string \<Rightarrow> error + fsnode"
  newWatcher :: "error + 'w"
  wAdd :: "'w \<Rightarrow> string \<Rightarrow> error option \<times> 'w"
  wRemove :: "'w \<Rightarrow> string \<Rightarrow> error option \<times> 'w"
  wClose :: "'w \<Rightarrow> error option \<times> 'w"

text \<open>
  \<^verbatim>\<open>filepath.Walk(root, walkFn)\<close>: \<^verbatim>\<open>walkFn\<close> is called for each file or directory in
  the tree, including the root, a directory before its entries; the walk stops at the first
  call that returns an error and returns that error. When \<^verbatim>\<open>os.Lstat(root)\<close> fails,
  \<^verbatim>\<open>walkFn\<close> is called once, with a nil \<^verbatim>\<open>FileInfo\<close> and the error. The function the walk
  calls changes the watcher, so it takes and returns a state. (\<^verbatim>\<open>filepath.SkipDir\<close> is left
  out: no function of this package returns it.)
\<close>

type_synonym 's WalkFunc =
  "string \<Rightarrow> FileInfo option \<Rightarrow> error option \<Rightarrow> 's \<Rightarrow> (error option \<times> 's) outcome"

fun walk :: "pathlib \<Rightarrow> string \<Rightarrow> fsnode \<Rightarrow> 's WalkFunc \<Rightarrow> 's \<Rightarrow> (error option \<times> 's) outcome"
  and walkNames :: "pathlib \<Rightarrow> string \<Rightarrow> (string \<times> fsnode) list \<Rightarrow> 's WalkFunc \<Rightarrow> 's
                      \<Rightarrow> (error option \<times> 's) outcome"
where
  "walk L pth FileNode walkFn s = walkFn pth (Some (FileInfo False)) None s"
| "walk L pth (DirNode names) walkFn s =
     (case walkFn pth (Some (FileInfo True)) None s of
        Panic m \<Rightarrow> Panic m
      | Ok (err, s') \<Rightarrow>
          if err \<noteq> None then Ok (err, s') else walkNames L pth names walkFn s')"
| "walkNames L pth [] walkFn s = Ok (None, s)"
| "walkNames L pth (entry # names) walkFn s =
     (case walk L (Join L pth (fst entry)) (snd entry) walkFn s of
        Panic m \<Rightarrow> Panic m
      | Ok (err, s') \<Rightarrow>
          if err \<noteq> None then Ok (err, s') else walkNames L pth names walkFn s')"

definition Walk :: "'w sys \<Rightarrow> pathlib \<Rightarrow> string \<Rightarrow> 's WalkFunc \<Rightarrow> 's
                      \<Rightarrow> (error option \<times> 's) outcome" where
  "Walk E L root walkFn s =
     (case treeAt E root of
        Inl err \<Rightarrow> walkFn root None (Some err) s
      | Inr tree \<Rightarrow> walk L root tree walkFn s)"

section \<open>Creating and closing the watcher\<close>

definition NewFileSystemWatcher :: "'w sys \<Rightarrow> error + 'w FileSystemWatcher" where
  "NewFileSystemWatcher E =
     (case newWatcher E of
        Inl err \<Rightarrow> Inl (wrapErr err)
      | Inr w \<Rightarrow> Inr \<lparr>watcher = w, watchPaths = [], isclosed = False, close = False\<rparr>)"

text \<open>
  \<^verbatim>\<open>Close\<close>. Closing a channel that is closed already panics in Go; the branch is kept,
  so that a theorem saying \<^verbatim>\<open>Close\<close> returns also says the channel was not closed twice.
  The error of \<^verbatim>\<open>fw.watcher.Close()\<close> is returned as it is.
\<close>

definition Close :: "'w sys \<Rightarrow> 'w FileSystemWatcher \<Rightarrow> (error option \<times> 'w FileSystemWatcher) outcome" where
  "Close E fw =
     (if isclosed fw then Ok (None, fw)
      else
        let fw1 = fw\<lparr>isclosed := True\<rparr> in
        if close fw1 then Panic ''close of closed channel''
        else
          let fw2 = fw1\<lparr>close := True\<rparr> in
          (case wClose E (watcher fw2) of
             (err, w') \<Rightarrow> Ok (err, fw2\<lparr>watcher := w'\<rparr>)))"

text \<open>\<^verbatim>\<open>Close\<close> called \<open>n\<close> times in a row: the errors returned, in order, and the last state.\<close>

fun CloseTimes :: "'w sys \<Rightarrow> nat \<Rightarrow> 'w FileSystemWatcher
                     \<Rightarrow> (error option list \<times> 'w FileSystemWatcher) outcome" where
  "CloseTimes E 0 fw = Ok ([], fw)"
| "CloseTimes E (Suc n) fw =
     (case Close E fw of
        Panic m \<Rightarrow> Panic m
      | Ok (err, fw') \<Rightarrow>
          (case CloseTimes E n fw' of
             Panic m \<Rightarrow> Panic m
           | Ok (errs, fw'') \<Rightarrow> Ok (err # errs, fw'')))"

section \<open>Waiting for events\<close>

text \<open>
  Each turn of the loop of \<^verbatim>\<open>WaitEvent\<close> is one \<^verbatim>\<open>select\<close> over the channels
  \<^verbatim>\<open>fw.watcher.Events\<close>, \<^verbatim>\<open>fw.watcher.Errors\<close> and \<^verbatim>\<open>fw.close\<close>. Which case a
  \<^verbatim>\<open>select\<close> takes, and with what value, is decided outside the package; a run is given
  by the list of what the successive selects receive. A receive from \<^verbatim>\<open>Errors\<close> yields a
  Go \<^verbatim>\<open>error\<close>, which is nil when that channel has been closed.
\<close>

datatype selected =
    FromEvents fsnotifyEvent
  | FromErrors "error option"
  | FromClose

text \<open>
  \<^verbatim>\<open>WaitEvent\<close> returns the pair \<^verbatim>\<open>(*Event, error)\<close> and leaves the selects it did not
  consume. \<open>None\<close> means that the call has not returned when the list is used up: it is
  still blocked in \<^verbatim>\<open>select\<close>. The registry is the one the watcher holds during the call.
\<close>

fun WaitEvent :: "pathlib \<Rightarrow> 'w FileSystemWatcher \<Rightarrow> selected list
                    \<Rightarrow> ((Event option \<times> error option) \<times> selected list) option" where
  "WaitEvent L fw [] = None"
| "WaitEvent L fw (FromEvents ev # rest) =
     (if filterByOp L fw (evName ev) (evOp ev) then
        (if filterByPattern L fw (evName ev) then Some ((Some (wrapEvent ev), None), rest)
         else WaitEvent L fw rest)
      else WaitEvent L fw rest)"
| "WaitEvent L fw (FromErrors err # rest) = Some ((None, Wrap err), rest)"
| "WaitEvent L fw (FromClose # rest) = Some ((None, Some ErrWatcherClosed), rest)"

text \<open>A call of \<^verbatim>\<open>WaitEvent\<close> that returns has consumed at least one select.\<close>

lemma WaitEvent_consumes:
  "WaitEvent L fw sels = Some (r, rest) \<Longrightarrow> length rest < length sels"
proof (induction sels)
  case Nil
  then show ?case by simp
next
  case (Cons x sels)
  then show ?case by (cases x) (auto split: if_splits)
qed

text \<open>
  \<^verbatim>\<open>NotifyEvent\<close> starts a goroutine and returns. The goroutine is modelled by what it
  does with the selects it is given: the list of the calls \<^verbatim>\<open>notify(event, err)\<close> it makes,
  in order, and whether it has returned (\<open>True\<close>) or is blocked in \<^verbatim>\<open>WaitEvent\<close>
  (\<open>False\<close>). \<^verbatim>\<open>err == ErrWatcherClosed\<close> compares with the package's sentinel.
\<close>

function NotifyEvent :: "pathlib \<Rightarrow> 'w FileSystemWatcher \<Rightarrow> selected list
                           \<Rightarrow> (Event option \<times> error option) list \<times> bool" where
  "NotifyEvent L fw sels =
     (case WaitEvent L fw sels of
        None \<Rightarrow> ([], False)
      | Some ((ev, err), rest) \<Rightarrow>
          if err \<noteq> None then
            (if err = Some ErrWatcherClosed then ([], True)
             else (case NotifyEvent L fw rest of
                     (calls, returned) \<Rightarrow> ((None, err) # calls, returned)))
          else (case NotifyEvent L fw rest of
                  (calls, returned) \<Rightarrow> ((ev, None) # calls, returned)))"
  by pat_completeness auto
termination
  by (relation "measure (\<lambda>(L, fw, sels). length sels)")
     (auto dest: WaitEvent_consumes)

text \<open>
  The results of the successive calls of \<^verbatim>\<open>WaitEvent\<close> that a run allows, each call
  taking up where the one before stopped.
\<close>

function waitResults :: "pathlib \<Rightarrow> 'w FileSystemWatcher \<Rightarrow> selected list
                           \<Rightarrow> (Event option \<times> error option) list" where
  "waitResults L fw sels =
     (case WaitEvent L fw sels of
        None \<Rightarrow> []
      | Some (r, rest) \<Rightarrow> r # waitResults L fw rest)"
  by pat_completeness auto
termination
  by (relation "measure (\<lambda>(L, fw, sels). length sels)")
     (auto dest: WaitEvent_consumes)

declare NotifyEvent.simps [simp del] waitResults.simps [simp del]

text \<open>The arguments \<^verbatim>\<open>NotifyEvent\<close>'s goroutine passes to \<^verbatim>\<open>notify\<close> for a result.\<close>

definition notifyArgs :: "Event option \<times> error option \<Rightarrow> Event option \<times> error option" where
  "notifyArgs r = (if snd r \<noteq> None then (None, snd r) else (fst r, None))"

section \<open>Adding and removing paths\<close>

definition isDir :: "'w sys \<Rightarrow> string \<Rightarrow> bool \<times> error option" where
  "isDir E pth =
     (case statIsDir E pth of
        Inl err \<Rightarrow> (False, Wrap (Some err))
      | Inr d \<Rightarrow> (d, None))"

definition AddFile :: "'w sys \<Rightarrow> 'w FileSystemWatcher \<Rightarrow> string \<Rightarrow> Op
                         \<Rightarrow> error option \<times> 'w FileSystemWatcher" where
  "AddFile E fw pth os =
     (case isDir E pth of
        (isd, err) \<Rightarrow>
          if err = None \<and> isd then (Some (Errorf (''Use AddDir instead for '' @ pth)), fw)
          else if err \<noteq> None then (Wrap err, fw)
          else
            (case wAdd E (watcher fw) pth of
               (err', w') \<Rightarrow>
                 if err' \<noteq> None then (Wrap err', fw\<lparr>watcher := w'\<rparr>)
                 else (None, fw\<lparr>watcher := w',
                                 watchPaths := watchPaths fw @
                                   [\<lparr>path = pth, pattern = [], ops = os, isdir = False\<rparr>]\<rparr>)))"

text \<open>
  \<^verbatim>\<open>removePath\<close>: the loop stops at the first index whose entry has exactly the given
  path; the entry at that index is cut out.
\<close>

fun firstIndex :: "watchPath list \<Rightarrow> string \<Rightarrow> nat option" where
  "firstIndex [] pth = None"
| "firstIndex (p # ps) pth =
     (if path p = pth then Some 0 else map_option Suc (firstIndex ps pth))"

definition removePath :: "watchPath list \<Rightarrow> string \<Rightarrow> watchPath list" where
  "removePath paths pth =
     (case firstIndex paths pth of
        Some index \<Rightarrow> take index paths @ drop (index + 1) paths
      | None \<Rightarrow> paths)"

definition RemoveFile :: "'w sys \<Rightarrow> 'w FileSystemWatcher \<Rightarrow> string
                            \<Rightarrow> error option \<times> 'w FileSystemWatcher" where
  "RemoveFile E fw pth =
     (case isDir E pth of
        (isd, err) \<Rightarrow>
          if err = None \<and> isd then (Some (Errorf (''Use RemoveDir instead for '' @ pth)), fw)
          else if err \<noteq> None then (Wrap err, fw)
          else
            (case wRemove E (watcher fw) pth of
               (err', w') \<Rightarrow>
                 if err' \<noteq> None then (Wrap err', fw\<lparr>watcher := w'\<rparr>)
                 else (None, fw\<lparr>watcher := w',
                                 watchPaths := removePath (watchPaths fw) pth\<rparr>)))"

definition addDir :: "'w sys \<Rightarrow> 'w FileSystemWatcher \<Rightarrow> string \<Rightarrow> string \<Rightarrow> Op
                        \<Rightarrow> error option \<times> 'w FileSystemWatcher" where
  "addDir E fw pth pat os =
     (case isDir E pth of
        (isd, err) \<Rightarrow>
          if err = None \<and> \<not> isd then (Some (Errorf (''Use AddFile instead for '' @ pth)), fw)
          else if err \<noteq> None then (Wrap err, fw)
          else
            (case wAdd E (watcher fw) pth of
               (err', w') \<Rightarrow>
                 if err' \<noteq> None then (Wrap err', fw\<lparr>watcher := w'\<rparr>)
                 else (None, fw\<lparr>watcher := w',
                                 watchPaths := watchPaths fw @
                                   [\<lparr>path = pth, pattern = pat, ops = os, isdir = True\<rparr>]\<rparr>)))"

text \<open>
  The function \<^verbatim>\<open>AddDir\<close> hands to \<^verbatim>\<open>filepath.Walk\<close>:
  \<^verbatim>\<open>if e := fw.addDir(p, pattern, ops); err != nil { return stackerr.Wrap(e) }\<close>.
  The condition reads \<^verbatim>\<open>err\<close>, the error \<^verbatim>\<open>Walk\<close> passed in, and not \<^verbatim>\<open>e\<close>.
  \<^verbatim>\<open>info.IsDir()\<close> on a nil \<^verbatim>\<open>info\<close> panics.
\<close>

definition addDirWalkFn :: "'w sys \<Rightarrow> string \<Rightarrow> Op \<Rightarrow> 'w FileSystemWatcher WalkFunc" where
  "addDirWalkFn E pat os p info err fw =
     (case info of
        None \<Rightarrow> Panic ''invalid memory address or nil pointer dereference''
      | Some fi \<Rightarrow>
          if IsDir fi then
            (case addDir E fw p pat os of
               (e, fw') \<Rightarrow> if err \<noteq> None then Ok (Wrap e, fw') else Ok (None, fw'))
          else Ok (None, fw))"

definition AddDir :: "'w sys \<Rightarrow> pathlib \<Rightarrow> 'w FileSystemWatcher \<Rightarrow> string \<Rightarrow> string \<Rightarrow> Op \<Rightarrow> bool
                        \<Rightarrow> (error option \<times> 'w FileSystemWatcher) outcome" where
  "AddDir E L fw pth pat os recursive =
     (case addDir E fw pth pat os of
        (err, fw1) \<Rightarrow>
          if err \<noteq> None then Ok (Wrap err, fw1)
          else if recursive then
            (case Walk E L pth (addDirWalkFn E pat os) fw1 of
               Panic m \<Rightarrow> Panic m
             | Ok (err', fw2) \<Rightarrow> if err' \<noteq> None then Ok (err', fw2) else Ok (None, fw2))
          else Ok (None, fw1))"

definition removeDir :: "'w sys \<Rightarrow> 'w FileSystemWatcher \<Rightarrow> string
                           \<Rightarrow> error option \<times> 'w FileSystemWatcher" where
  "removeDir E fw pth =
     (case isDir E pth of
        (isd, err) \<Rightarrow>
          if err = None \<and> \<not> isd then (Some (Errorf (''Use RemoveFile instead for '' @ pth)), fw)
          else if err \<noteq> None then (Wrap err, fw)
          else
            (case wRemove E (watcher fw) pth of
               (err', w') \<Rightarrow>
                 if err' \<noteq> None then (Wrap err', fw\<lparr>watcher := w'\<rparr>)
                 else (None, fw\<lparr>watcher := w',
                                 watchPaths := removePath (watchPaths fw) pth\<rparr>)))"

text \<open>
  The function \<^verbatim>\<open>RemoveDir\<close> hands to \<^verbatim>\<open>filepath.Walk\<close>, with the same condition:
  \<^verbatim>\<open>if e := fw.removeDir(p); err != nil { return stackerr.Wrap(e) }\<close>.
\<close>

definition removeDirWalkFn :: "'w sys \<Rightarrow> 'w FileSystemWatcher WalkFunc" where
  "removeDirWalkFn E p info err fw =
     (case info of
        None \<Rightarrow> Panic ''invalid memory address or nil pointer dereference''
      | Some fi \<Rightarrow>
          if IsDir fi then
            (case removeDir E fw p of
               (e, fw') \<Rightarrow> if err \<noteq> None then Ok (Wrap e, fw') else Ok (None, fw'))
          else Ok (None, fw))"

definition RemoveDir :: "'w sys \<Rightarrow> pathlib \<Rightarrow> 'w FileSystemWatcher \<Rightarrow> string \<Rightarrow> bool
                           \<Rightarrow> (error option \<times> 'w FileSystemWatcher) outcome" where
  "RemoveDir E L fw pth recursive =
     (case removeDir E fw pth of
        (err, fw1) \<Rightarrow>
          if err \<noteq> None then Ok (Wrap err, fw1)
          else if recursive then
            (case Walk E L pth (removeDirWalkFn E) fw1 of
               Panic m \<Rightarrow> Panic m
             | Ok (err', fw2) \<Rightarrow> if err' \<noteq> None then Ok (err', fw2) else Ok (None, fw2))
          else Ok (None, fw1))"

text \<open>
  The directories of a tree in the order in which \<^verbatim>\<open>filepath.Walk\<close> reaches them, by the
  path it gives each: the root first.
\<close>

fun walkDirs :: "pathlib \<Rightarrow> string \<Rightarrow> fsnode \<Rightarrow> string list"
  and walkDirsNames :: "pathlib \<Rightarrow> string \<Rightarrow> (string \<times> fsnode) list \<Rightarrow> string list"
where
  "walkDirs L pth FileNode = []"
| "walkDirs L pth (DirNode names) = pth # walkDirsNames L pth names"
| "walkDirsNames L pth [] = []"
| "walkDirsNames L pth (entry # names) =
     walkDirs L (Join L pth (fst entry)) (snd entry) @ walkDirsNames L pth names"

section \<open>A Unix instance of the path functions\<close>

text \<open>
  For the examples the four path functions are instantiated with their behaviour on Unix
  (separator \<^verbatim>\<open>/\<close>, no volume names). \<open>unixClean\<close> follows \<^verbatim>\<open>filepath.Clean\<close>: the
  elements between separators are read from left to right; empty elements and \<^verbatim>\<open>.\<close> are
  dropped; \<^verbatim>\<open>..\<close> removes the element before it when there is one that is not itself
  \<^verbatim>\<open>..\<close>, is dropped at the root, and is kept otherwise; the empty result is \<^verbatim>\<open>.\<close>.
  The list of kept elements is held in reverse.
\<close>

fun elems :: "string \<Rightarrow> string list" where
  "elems [] = [[]]"
| "elems (c # cs) =
     (if c = CHR ''/'' then [] # elems cs
      else (case elems cs of [] \<Rightarrow> [[c]] | e # es \<Rightarrow> (c # e) # es))"

fun cleanStep :: "bool \<Rightarrow> string list \<Rightarrow> string \<Rightarrow> string list" where
  "cleanStep rooted out e =
     (if e = [] \<or> e = ''.'' then out
      else if e = ''..'' then
        (case out of
           [] \<Rightarrow> if rooted then [] else [''..'']
         | t # ts \<Rightarrow> if t = ''..'' then ''..'' # t # ts else ts)
      else e # out)"

fun joinSlash :: "string list \<Rightarrow> string" where
  "joinSlash [] = []"
| "joinSlash [e] = e"
| "joinSlash (e # es) = e @ ''/'' @ joinSlash es"

definition unixClean :: "string \<Rightarrow> string" where
  "unixClean pth =
     (if pth = [] then ''.''
      else
        let rooted = (hd pth = CHR ''/'');
            out = rev (foldl (cleanStep rooted) [] (elems pth))
        in if rooted then ''/'' @ joinSlash out
           else if out = [] then ''.''
           else joinSlash out)"

text \<open>
  \<^verbatim>\<open>filepath.Split\<close> cuts after the last separator; \<^verbatim>\<open>filepath.Dir\<close> cleans what is
  before the cut.
\<close>

definition unixSplit :: "string \<Rightarrow> string \<times> string" where
  "unixSplit pth =
     (rev (dropWhile (\<lambda>c. c \<noteq> CHR ''/'') (rev pth)),
      rev (takeWhile (\<lambda>c. c \<noteq> CHR ''/'') (rev pth)))"

definition unixDir :: "string \<Rightarrow> string" where
  "unixDir pth = unixClean (fst (unixSplit pth))"

text \<open>
  A small glob matcher in the place of \<^verbatim>\<open>filepath.Match\<close>: \<^verbatim>\<open>*\<close> matches any run of
  characters other than the separator, \<^verbatim>\<open>?\<close> one such character, any other character
  itself. A pattern holding \<^verbatim>\<open>[\<close> with no \<^verbatim>\<open>]\<close> after it is malformed
  (\<^verbatim>\<open>ErrBadPattern\<close>); character classes are not interpreted further.
\<close>

fun glob :: "string \<Rightarrow> string \<Rightarrow> bool" where
  "glob [] s = (s = [])"
| "glob (c # cs) [] = (c = CHR ''*'' \<and> glob cs [])"
| "glob (c # cs) (x # xs) =
     (if c = CHR ''*'' then glob cs (x # xs) \<or> (x \<noteq> CHR ''/'' \<and> glob (c # cs) xs)
      else if c = CHR ''?'' then x \<noteq> CHR ''/'' \<and> glob cs xs
      else c = x \<and> glob cs xs)"

fun wellFormed :: "string \<Rightarrow> bool" where
  "wellFormed [] = True"
| "wellFormed (c # cs) = (if c = CHR ''['' then CHR '']'' \<in> set cs \<and> wellFormed cs else wellFormed cs)"

definition unixMatch :: "string \<Rightarrow> string \<Rightarrow> bool \<times> error option" where
  "unixMatch pat s =
     (if wellFormed pat then (glob pat s, None)
      else (False, Some (External ''syntax error in pattern'')))"

text \<open>\<^verbatim>\<open>filepath.Join\<close> puts a separator between its non-empty elements and cleans the result.\<close>

definition unixJoin :: "string \<Rightarrow> string \<Rightarrow> string" where
  "unixJoin a b =
     (if a = [] \<and> b = [] then []
      else if a = [] then unixClean b
      else if b = [] then unixClean a
      else unixClean (a @ ''/'' @ b))"

definition unix :: pathlib where
  "unix = \<lparr>Clean = unixClean, Dir = unixDir, Split = unixSplit, Match = unixMatch,
            Join = unixJoin\<rparr>"

text \<open>Entries as \<^verbatim>\<open>AddFile\<close> and \<^verbatim>\<open>addDir\<close> build them.\<close>

definition fileEntry :: "string \<Rightarrow> Op \<Rightarrow> watchPath" where
  "fileEntry pth os = \<lparr>path = pth, pattern = [], ops = os, isdir = False\<rparr>"

definition dirEntry :: "string \<Rightarrow> string \<Rightarrow> Op \<Rightarrow> watchPath" where
  "dirEntry pth pat os = \<lparr>path = pth, pattern = pat, ops = os, isdir = True\<rparr>"

section \<open>A file tree and an fsnotify watcher for the examples\<close>

text \<open>
  What the examples need of a \<^verbatim>\<open>*fsnotify.Watcher\<close>: the paths it watches, and how many
  times its \<^verbatim>\<open>Close\<close> has been called.
\<close>

record fsn =
  watched :: "string list"
  closes :: nat

text \<open>
  The directory \<^verbatim>\<open>d\<close> holds the file \<^verbatim>\<open>a.txt\<close> and the directory \<^verbatim>\<open>sub\<close>, which
  holds the empty directory \<^verbatim>\<open>deep\<close>.
\<close>

definition exTree :: fsnode where
  "exTree = DirNode [(''a.txt'', FileNode), (''sub'', DirNode [(''deep'', DirNode [])])]"

text \<open>
  The system of the examples. \<open>refused\<close> lists the paths fsnotify refuses to add.
  Adding a path that is watched already changes nothing; removing a path that is not
  watched is an error.
\<close>

definition exSys :: "string list \<Rightarrow> fsn sys" where
  "exSys refused =
     \<lparr>statIsDir = (\<lambda>p. if p \<in> set [''d'', ''d/sub'', ''d/sub/deep''] then Inr True
                        else if p = ''d/a.txt'' then Inr False
                        else Inl (External ''no such file or directory'')),
      treeAt = (\<lambda>p. if p = ''d'' then Inr exTree
                     else Inl (External ''no such file or directory'')),
      newWatcher = Inr \<lparr>watched = [], closes = 0\<rparr>,
      wAdd = (\<lambda>w p. if p \<in> set refused then (Some (External ''no space left on device''), w)
                      else if p \<in> set (watched w) then (None, w)
                      else (None, w\<lparr>watched := watched w @ [p]\<rparr>)),
      wRemove = (\<lambda>w p. if p \<in> set (watched w)
                         then (None, w\<lparr>watched := removeAll p (watched w)\<rparr>)
                         else (Some (External ''cannot remove non-existent watch''), w)),
      wClose = (\<lambda>w. (None, w\<lparr>closes := Suc (closes w)\<rparr>))\<rparr>"

text \<open>An open watcher holding the given entries.\<close>

definition watching :: "watchPath list \<Rightarrow> fsn FileSystemWatcher" where
  "watching ps = \<lparr>watcher = \<lparr>watched = remdups (map path ps), closes = 0\<rparr>,
                   watchPaths = ps, isclosed = False, close = False\<rparr>"

text \<open>
  The registry of the lookup examples: the directory \<^verbatim>\<open>testdir\<close> watched for
  \<^verbatim>\<open>*.txt\<close> with every operation, added first, and the file \<^verbatim>\<open>testdir/test.txt\<close>
  added after it with the mask \<^verbatim>\<open>Chmod\<close>.
\<close>

definition exD :: watchPath where
  "exD = dirEntry ''testdir'' ''*.txt'' AllOps"

definition exF :: watchPath where
  "exF = fileEntry ''testdir/test.txt'' Chmod"

definition exW :: "fsn FileSystemWatcher" where
  "exW = watching [exD, exF]"

text \<open>
  The registry after \<^verbatim>\<open>AddFile("d/a.txt", Write)\<close>, \<^verbatim>\<open>AddFile("d/a.txt", Chmod)\<close> and
  \<^verbatim>\<open>AddDir("d", "*.txt", AllOps, false)\<close> on the tree of the examples: \<^verbatim>\<open>AddFile\<close>
  appends without looking for an entry of the same path, so the file has two entries.
\<close>

definition exTwice :: "fsn FileSystemWatcher" where
  "exTwice = watching [fileEntry ''d/a.txt'' Write, fileEntry ''d/a.txt'' Chmod,
                       dirEntry ''d'' ''*.txt'' AllOps]"

text \<open>
  Raw events for the examples: a write under the watched directory to a name the pattern
  rejects, a write to the file watched for \<^verbatim>\<open>Chmod\<close> only, and a chmod of that file.
\<close>

definition exEvIni :: fsnotifyEvent where
  "exEvIni = \<lparr>evName = ''testdir/x.ini'', evOp = Write\<rparr>"

definition exEvWrite :: fsnotifyEvent where
  "exEvWrite = \<lparr>evName = ''testdir/test.txt'', evOp = Write\<rparr>"

definition exEvChmod :: fsnotifyEvent where
  "exEvChmod = \<lparr>evName = ''testdir/test.txt'', evOp = Chmod\<rparr>"

text \<open>
  A run of selects: two rejected events, an accepted one, a raw error, the shutdown
  signal, and one more event that is ready after the shutdown.
\<close>

definition exRun :: "selected list" where
  "exRun = [FromEvents exEvIni, FromEvents exEvWrite, FromEvents exEvChmod,
            FromErrors (Some (External ''read error'')), FromClose, FromEvents exEvChmod]"

text \<open>
  The watcher after \<^verbatim>\<open>AddDir("d", "*.txt", AllOps, true)\<close> on the tree of the examples,
  when every registration succeeds.
\<close>

definition exAdded :: "fsn FileSystemWatcher" where
  "exAdded =
     \<lparr>watcher = \<lparr>watched = [''d'', ''d/sub'', ''d/sub/deep''], closes = 0\<rparr>,
      watchPaths = [dirEntry ''d'' ''*.txt'' AllOps, dirEntry ''d'' ''*.txt'' AllOps,
                    dirEntry ''d/sub'' ''*.txt'' AllOps, dirEntry ''d/sub/deep'' ''*.txt'' AllOps],
      isclosed = False, close = False\<rparr>"

section \<open>Properties of the lookup and the filters\<close>

lemma find_first_split:
  assumes "F \<in> set ps" and "P F"
  shows "\<exists>pre e post. ps = pre @ e # post \<and> (\<forall>x\<in>set pre. \<not> P x) \<and> P e
           \<and> find P ps = Some e"
  using assms
proof (induction ps)
  case Nil
  then show ?case by simp
next
  case (Cons a ps)
  show ?case
  proof (cases "P a")
    case True
    then have "a # ps = [] @ a # ps \<and> (\<forall>x\<in>set []. \<not> P x) \<and> P a \<and> find P (a # ps) = Some a"
      by simp
    then show ?thesis by blast
  next
    case False
    with Cons.prems have "F \<in> set ps" by auto
    from Cons.IH [OF this Cons.prems(2)] obtain pre e post where
      e: "ps = pre @ e # post" "\<forall>x\<in>set pre. \<not> P x" "P e" "find P ps = Some e"
      by blast
    with False have "a # ps = (a # pre) @ e # post \<and> (\<forall>x\<in>set (a # pre). \<not> P x) \<and> P e
        \<and> find P (a # ps) = Some e"
      by simp
    then show ?thesis by blast
  qed
qed

lemmas unix_eval = unix_def unixClean_def unixDir_def unixSplit_def unixMatch_def unixJoin_def

lemmas ex_eval = exD_def exF_def exW_def watching_def dirEntry_def fileEntry_def

text \<open>What the lookup finds in the registry of the examples.\<close>

lemma exW_finds_file: "findWatchPath unix exW ''testdir/test.txt'' = Some exF"
  by (simp add: findWatchPath_def ex_eval unix_eval)

lemma exW_finds_dir: "findWatchPath unix exW ''testdir/x.ini'' = Some exD"
  by (simp add: findWatchPath_def ex_eval unix_eval)

lemma exW_finds_txt: "findWatchPath unix exW ''testdir/x.txt'' = Some exD"
  by (simp add: findWatchPath_def ex_eval unix_eval)

lemma exW_finds_none: "findWatchPath unix exW ''none'' = None"
  by (simp add: findWatchPath_def ex_eval unix_eval)

text \<open>
  Claim C1. When a file \<open>F\<close> is registered directly and a directory \<open>D\<close>, the parent of
  \<open>F\<close>, is registered too, \<^verbatim>\<open>findWatchPath\<close> applied to the path of \<open>F\<close> returns the
  first entry of the registry whose cleaned path is the cleaned path of \<open>F\<close>, and never
  \<open>D\<close>, wherever the two stand in the registry: the exact match of the first pass wins
  over the parent-directory match of the second. The entry returned is \<open>F\<close> itself when
  no other entry has the cleaned path of \<open>F\<close>; when that path was registered more than
  once, it is the earliest of those entries. That \<open>D\<close> is the parent of \<open>F\<close> is: its
  cleaned path is the cleaned \<^verbatim>\<open>filepath.Dir\<close> of the path of \<open>F\<close>, and differs from the
  cleaned path of \<open>F\<close>.
\<close>

theorem findWatchPath_file_wins:
  assumes "F \<in> set (watchPaths fw)" and "\<not> isdir F"
    and "D \<in> set (watchPaths fw)" and "isdir D"
    and "Clean L (path D) = Clean L (Dir L (path F))"
    and "Clean L (path D) \<noteq> Clean L (path F)"
  shows "\<exists>pre e post. watchPaths fw = pre @ e # post
           \<and> (\<forall>x\<in>set pre. Clean L (path x) \<noteq> Clean L (path F))
           \<and> Clean L (path e) = Clean L (path F)
           \<and> findWatchPath L fw (path F) = Some e \<and> e \<noteq> D
           \<and> ((\<forall>x\<in>set (watchPaths fw). Clean L (path x) = Clean L (path F) \<longrightarrow> x = F)
                \<longrightarrow> e = F)"
proof -
  let ?P = "\<lambda>p. Clean L (path F) = Clean L (path p)"
  have "?P F" by simp
  from find_first_split [of F "watchPaths fw" ?P, OF assms(1) this]
  obtain pre e post where
    e1: "watchPaths fw = pre @ e # post" and
    e2: "\<forall>x\<in>set pre. Clean L (path F) \<noteq> Clean L (path x)" and
    e3: "Clean L (path F) = Clean L (path e)" and
    e4: "find ?P (watchPaths fw) = Some e"
    by blast
  have c1: "\<forall>x\<in>set pre. Clean L (path x) \<noteq> Clean L (path F)"
  proof
    fix x assume "x \<in> set pre"
    with e2 have "Clean L (path F) \<noteq> Clean L (path x)" by (rule bspec)
    then show "Clean L (path x) \<noteq> Clean L (path F)" by (rule not_sym)
  qed
  have c2: "Clean L (path e) = Clean L (path F)" using e3 by (rule sym)
  have c3: "findWatchPath L fw (path F) = Some e"
    unfolding findWatchPath_def e4 by simp
  have c4: "e \<noteq> D"
  proof
    assume "e = D"
    with c2 assms(6) show False by simp
  qed
  have m: "e \<in> set (watchPaths fw)" unfolding e1 by simp
  have c5: "(\<forall>x\<in>set (watchPaths fw). Clean L (path x) = Clean L (path F) \<longrightarrow> x = F)
              \<longrightarrow> e = F"
  proof
    assume "\<forall>x\<in>set (watchPaths fw). Clean L (path x) = Clean L (path F) \<longrightarrow> x = F"
    from this m have "Clean L (path e) = Clean L (path F) \<longrightarrow> e = F" by (rule bspec)
    with c2 show "e = F" by (rule mp [rotated])
  qed
  from e1 c1 c2 c3 c4 c5 show ?thesis by (intro exI conjI)
qed

text \<open>
  The theorem at the registry of the examples, where the directory was added before the
  file and the file has one entry, and at the registry where the directory was added
  after the two entries of the file.
\<close>

theorem findWatchPath_file_wins_witness:
  "exF \<in> set (watchPaths exW) \<and> \<not> isdir exF \<and> exD \<in> set (watchPaths exW) \<and> isdir exD
   \<and> Clean unix (path exD) = Clean unix (Dir unix (path exF))
   \<and> Clean unix (path exD) \<noteq> Clean unix (path exF)
   \<and> findWatchPath unix exW (path exF) = Some exF
   \<and> findWatchPath unix exW (path exF) \<noteq> Some exD
   \<and> findWatchPath unix exTwice (path (fileEntry ''d/a.txt'' Chmod))
       \<noteq> Some (dirEntry ''d'' ''*.txt'' AllOps)"
proof -
  have h1: "exF \<in> set (watchPaths exW)" by (simp add: ex_eval)
  have h2: "\<not> isdir exF" by (simp add: ex_eval)
  have h3: "exD \<in> set (watchPaths exW)" by (simp add: ex_eval)
  have h4: "isdir exD" by (simp add: ex_eval)
  have h5: "Clean unix (path exD) = Clean unix (Dir unix (path exF))"
    by (simp add: ex_eval unix_eval)
  have h6: "Clean unix (path exD) \<noteq> Clean unix (path exF)"
    by (simp add: ex_eval unix_eval)
  have only: "\<forall>x\<in>set (watchPaths exW). Clean unix (path x) = Clean unix (path exF) \<longrightarrow> x = exF"
    by (simp add: ex_eval unix_eval)
  from findWatchPath_file_wins [OF h1 h2 h3 h4 h5 h6] only
  have r: "findWatchPath unix exW (path exF) = Some exF" by blast
  have n: "exF \<noteq> exD" using h2 h4 by auto
  have g1: "fileEntry ''d/a.txt'' Chmod \<in> set (watchPaths exTwice)"
    by (simp add: exTwice_def ex_eval)
  have g2: "\<not> isdir (fileEntry ''d/a.txt'' Chmod)" by (simp add: ex_eval)
  have g3: "dirEntry ''d'' ''*.txt'' AllOps \<in> set (watchPaths exTwice)"
    by (simp add: exTwice_def ex_eval)
  have g4: "isdir (dirEntry ''d'' ''*.txt'' AllOps)" by (simp add: ex_eval)
  have g5: "Clean unix (path (dirEntry ''d'' ''*.txt'' AllOps))
              = Clean unix (Dir unix (path (fileEntry ''d/a.txt'' Chmod)))"
    by (simp add: ex_eval unix_eval)
  have g6: "Clean unix (path (dirEntry ''d'' ''*.txt'' AllOps))
              \<noteq> Clean unix (path (fileEntry ''d/a.txt'' Chmod))"
    by (simp add: ex_eval unix_eval)
  from findWatchPath_file_wins [OF g1 g2 g3 g4 g5 g6]
  have t: "findWatchPath unix exTwice (path (fileEntry ''d/a.txt'' Chmod))
       \<noteq> Some (dirEntry ''d'' ''*.txt'' AllOps)" by auto
  show ?thesis using h1 h2 h3 h4 h5 h6 r n t by simp
qed

text \<open>
  Claim C1 as it was stated, that the lookup returns the entry of \<open>F\<close>, fails when the
  path of \<open>F\<close> was registered twice. After \<^verbatim>\<open>AddFile("d/a.txt", Write)\<close>,
  \<^verbatim>\<open>AddFile("d/a.txt", Chmod)\<close> and \<^verbatim>\<open>AddDir("d", "*.txt", AllOps, false)\<close>, with \<open>F\<close>
  the entry watched for \<^verbatim>\<open>Chmod\<close> and \<open>D\<close> the entry of \<^verbatim>\<open>d\<close>, the lookup of the path of
  \<open>F\<close> returns the entry watched for \<^verbatim>\<open>Write\<close>, and a \<^verbatim>\<open>Chmod\<close> event on the file is
  filtered out.
\<close>

theorem findWatchPath_returns_earlier_entry:
  "fst (AddFile (exSys []) (watching []) ''d/a.txt'' Write) = None
   \<and> fst (AddFile (exSys []) (snd (AddFile (exSys []) (watching []) ''d/a.txt'' Write))
             ''d/a.txt'' Chmod) = None
   \<and> AddDir (exSys []) unix
        (snd (AddFile (exSys []) (snd (AddFile (exSys []) (watching []) ''d/a.txt'' Write))
                ''d/a.txt'' Chmod))
        ''d'' ''*.txt'' AllOps False = Ok (None, exTwice)
   \<and> fileEntry ''d/a.txt'' Chmod \<in> set (watchPaths exTwice)
   \<and> \<not> isdir (fileEntry ''d/a.txt'' Chmod)
   \<and> dirEntry ''d'' ''*.txt'' AllOps \<in> set (watchPaths exTwice)
   \<and> isdir (dirEntry ''d'' ''*.txt'' AllOps)
   \<and> Clean unix (path (dirEntry ''d'' ''*.txt'' AllOps))
        = Clean unix (Dir unix (path (fileEntry ''d/a.txt'' Chmod)))
   \<and> Clean unix (path (dirEntry ''d'' ''*.txt'' AllOps))
        \<noteq> Clean unix (path (fileEntry ''d/a.txt'' Chmod))
   \<and> findWatchPath unix exTwice (path (fileEntry ''d/a.txt'' Chmod))
        = Some (fileEntry ''d/a.txt'' Write)
   \<and> findWatchPath unix exTwice (path (fileEntry ''d/a.txt'' Chmod))
        \<noteq> Some (fileEntry ''d/a.txt'' Chmod)
   \<and> \<not> filterByOp unix exTwice ''d/a.txt'' Chmod"
proof -
  let ?F = "fileEntry ''d/a.txt'' Chmod" and ?G = "fileEntry ''d/a.txt'' Write"
  let ?D = "dirEntry ''d'' ''*.txt'' AllOps"
  have a1: "AddFile (exSys []) (watching []) ''d/a.txt'' Write = (None, watching [?G])"
    by (simp add: AddFile_def isDir_def exSys_def watching_def fileEntry_def)
  have a2: "AddFile (exSys []) (watching [?G]) ''d/a.txt'' Chmod = (None, watching [?G, ?F])"
    by (simp add: AddFile_def isDir_def exSys_def watching_def fileEntry_def)
  have a3: "AddDir (exSys []) unix (watching [?G, ?F]) ''d'' ''*.txt'' AllOps False
              = Ok (None, exTwice)"
    by (simp add: AddDir_def addDir_def isDir_def exSys_def watching_def fileEntry_def
        dirEntry_def exTwice_def)
  have c1: "fst (AddFile (exSys []) (watching []) ''d/a.txt'' Write) = None"
    by (simp only: a1 fst_conv)
  have c2: "fst (AddFile (exSys []) (snd (AddFile (exSys []) (watching []) ''d/a.txt'' Write))
             ''d/a.txt'' Chmod) = None"
    by (simp only: a1 a2 fst_conv snd_conv)
  have c3: "AddDir (exSys []) unix
        (snd (AddFile (exSys []) (snd (AddFile (exSys []) (watching []) ''d/a.txt'' Write))
                ''d/a.txt'' Chmod))
        ''d'' ''*.txt'' AllOps False = Ok (None, exTwice)"
    by (simp only: a1 a2 a3 snd_conv)
  have c4: "?F \<in> set (watchPaths exTwice)" by (simp add: exTwice_def watching_def)
  have c5: "\<not> isdir ?F" by (simp add: fileEntry_def)
  have c6: "?D \<in> set (watchPaths exTwice)" by (simp add: exTwice_def watching_def)
  have c7: "isdir ?D" by (simp add: dirEntry_def)
  have c8: "Clean unix (path ?D) = Clean unix (Dir unix (path ?F))"
    by (simp add: fileEntry_def dirEntry_def unix_eval)
  have c9: "Clean unix (path ?D) \<noteq> Clean unix (path ?F)"
    by (simp add: fileEntry_def dirEntry_def unix_eval)
  have f: "findWatchPath unix exTwice ''d/a.txt'' = Some ?G"
    by (simp add: findWatchPath_def exTwice_def ex_eval unix_eval)
  have p: "path ?F = ''d/a.txt''" by (simp add: fileEntry_def)
  have c10: "findWatchPath unix exTwice (path ?F) = Some ?G" by (simp only: p f)
  have n: "?G \<noteq> ?F" by (simp add: fileEntry_def Op_defs)
  have c11: "findWatchPath unix exTwice (path ?F) \<noteq> Some ?F"
    unfolding c10 using n by simp
  have c12: "\<not> filterByOp unix exTwice ''d/a.txt'' Chmod"
    by (simp add: filterByOp_def f fileEntry_def Op_defs)
  from c1 c2 c3 c4 c5 c6 c7 c8 c9 c10 c11 c12 show ?thesis by (intro conjI)
qed

text \<open>
  Claim C4. When the path resolves to no entry, \<^verbatim>\<open>filterByOp\<close> returns false. When it
  resolves to an entry, \<^verbatim>\<open>filterByOp\<close> returns true exactly when the entry's mask
  contains every bit of the operation (\<^verbatim>\<open>p.ops&op == op\<close>); so a mask \<^verbatim>\<open>AllOps\<close> accepts
  each of the five single-bit operations, and a single-bit mask accepts, among the five,
  only its own bit.
\<close>

theorem filterByOp_subset:
  "(findWatchPath L fw pth = None \<longrightarrow> \<not> filterByOp L fw pth op) \<and>
   (\<forall>e. findWatchPath L fw pth = Some e \<longrightarrow>
      (filterByOp L fw pth op = (ops e AND op = op)) \<and>
      (ops e = AllOps \<and> op \<in> set singleOps \<longrightarrow> filterByOp L fw pth op) \<and>
      (ops e \<in> set singleOps \<and> op \<in> set singleOps \<longrightarrow>
         (filterByOp L fw pth op = (op = ops e))))"
  by (auto simp add: filterByOp_def singleOps_def Op_defs)

text \<open>
  The theorem at three lookups of the examples: an unwatched path, the file watched with
  \<^verbatim>\<open>Chmod\<close>, and a path under the directory watched with \<^verbatim>\<open>AllOps\<close>.
\<close>

theorem filterByOp_subset_witness:
  "findWatchPath unix exW ''none'' = None \<and> \<not> filterByOp unix exW ''none'' Write
   \<and> findWatchPath unix exW ''testdir/test.txt'' = Some exF
   \<and> ops exF \<in> set singleOps \<and> Chmod \<in> set singleOps \<and> Write \<in> set singleOps
   \<and> filterByOp unix exW ''testdir/test.txt'' Chmod
   \<and> \<not> filterByOp unix exW ''testdir/test.txt'' Write
   \<and> findWatchPath unix exW ''testdir/x.ini'' = Some exD \<and> ops exD = AllOps
   \<and> filterByOp unix exW ''testdir/x.ini'' Write"
proof -
  have s: "ops exF = Chmod" "ops exD = AllOps" "Chmod \<in> set singleOps" "Write \<in> set singleOps"
    "Write \<noteq> Chmod"
    by (simp_all add: ex_eval singleOps_def Op_defs)
  from filterByOp_subset [of unix exW "''none''" Write] exW_finds_none
  have a: "\<not> filterByOp unix exW ''none'' Write" by blast
  from filterByOp_subset [of unix exW "''testdir/test.txt''" Chmod] exW_finds_file s
  have b: "filterByOp unix exW ''testdir/test.txt'' Chmod" by (simp add: Op_defs)
  from filterByOp_subset [of unix exW "''testdir/test.txt''" Write] exW_finds_file s
  have c: "\<not> filterByOp unix exW ''testdir/test.txt'' Write" by (simp add: Op_defs)
  from filterByOp_subset [of unix exW "''testdir/x.ini''" Write] exW_finds_dir s
  have d: "filterByOp unix exW ''testdir/x.ini'' Write" by (simp add: Op_defs)
  show ?thesis using a b c d s exW_finds_none exW_finds_file exW_finds_dir by simp
qed

text \<open>
  Claim C5. When the path resolves to a directory entry with a non-empty pattern,
  \<^verbatim>\<open>filterByPattern\<close> returns true exactly when \<^verbatim>\<open>filepath.Match\<close>, given the pattern
  and the file part of \<^verbatim>\<open>filepath.Split\<close> of the path, reports a match and no error; a
  malformed pattern, for which \<^verbatim>\<open>Match\<close> returns an error, gives false.
\<close>

theorem filterByPattern_dir:
  assumes "findWatchPath L fw pth = Some e" and "isdir e" and "pattern e \<noteq> []"
  shows "filterByPattern L fw pth = (Match L (pattern e) (snd (Split L pth)) = (True, None))"
  using assms by (auto simp add: filterByPattern_def split: prod.splits)

text \<open>
  The theorem at a matching name, at a name that does not match, and at a malformed
  pattern.
\<close>

theorem filterByPattern_dir_witness:
  "findWatchPath unix exW ''testdir/x.txt'' = Some exD \<and> isdir exD \<and> pattern exD \<noteq> []
   \<and> snd (Split unix ''testdir/x.txt'') = ''x.txt''
   \<and> filterByPattern unix exW ''testdir/x.txt''
   \<and> findWatchPath unix exW ''testdir/x.ini'' = Some exD
   \<and> \<not> filterByPattern unix exW ''testdir/x.ini''
   \<and> Match unix ''[x'' ''x'' = (False, Some (External ''syntax error in pattern''))
   \<and> \<not> filterByPattern unix (watching [dirEntry ''testdir'' ''[x'' AllOps]) ''testdir/x''"
proof -
  have d: "isdir exD" "pattern exD \<noteq> []" "pattern exD = ''*.txt''" by (simp_all add: ex_eval)
  have m1: "Match unix ''*.txt'' (snd (Split unix ''testdir/x.txt'')) = (True, None)"
    by (simp add: unix_eval)
  have m2: "Match unix ''*.txt'' (snd (Split unix ''testdir/x.ini'')) = (False, None)"
    by (simp add: unix_eval)
  have m3: "Match unix ''[x'' (snd (Split unix ''testdir/x'')) =
              (False, Some (External ''syntax error in pattern''))"
    by (simp add: unix_eval)
  have m4: "Match unix ''[x'' ''x'' = (False, Some (External ''syntax error in pattern''))"
    by (simp add: unix_eval)
  have f3: "findWatchPath unix (watching [dirEntry ''testdir'' ''[x'' AllOps]) ''testdir/x''
              = Some (dirEntry ''testdir'' ''[x'' AllOps)"
    by (simp add: findWatchPath_def ex_eval unix_eval)
  have a: "filterByPattern unix exW ''testdir/x.txt''"
    using filterByPattern_dir [OF exW_finds_txt d(1) d(2)] m1 d(3) by simp
  have b: "\<not> filterByPattern unix exW ''testdir/x.ini''"
    using filterByPattern_dir [OF exW_finds_dir d(1) d(2)] m2 d(3) by simp
  have c: "\<not> filterByPattern unix (watching [dirEntry ''testdir'' ''[x'' AllOps]) ''testdir/x''"
    using filterByPattern_dir [OF f3] m3 by (simp add: dirEntry_def)
  have sp: "snd (Split unix ''testdir/x.txt'') = ''x.txt''" by (simp add: unix_eval)
  show ?thesis using a b c d m4 sp exW_finds_txt exW_finds_dir by simp
qed

text \<open>
  Claim C6. When the path resolves to an entry of a file added directly,
  \<^verbatim>\<open>filterByPattern\<close> returns true, whatever pattern the entry carries.
\<close>

theorem filterByPattern_file:
  "findWatchPath L fw pth = Some e \<Longrightarrow> \<not> isdir e \<Longrightarrow> filterByPattern L fw pth"
  by (simp add: filterByPattern_def)

text \<open>
  The theorem at a file entry carrying a pattern its own name does not match.
\<close>

theorem filterByPattern_file_witness:
  "findWatchPath unix (watching [\<lparr>path = ''a/notes.ini'', pattern = ''*.txt'', ops = AllOps, isdir = False\<rparr>])
       ''a/notes.ini'' =
     Some \<lparr>path = ''a/notes.ini'', pattern = ''*.txt'', ops = AllOps, isdir = False\<rparr>
   \<and> Match unix ''*.txt'' (snd (Split unix ''a/notes.ini'')) = (False, None)
   \<and> filterByPattern unix
       (watching [\<lparr>path = ''a/notes.ini'', pattern = ''*.txt'', ops = AllOps, isdir = False\<rparr>])
       ''a/notes.ini''"
proof -
  let ?e = "\<lparr>path = ''a/notes.ini'', pattern = ''*.txt'', ops = AllOps, isdir = False\<rparr>"
  have f: "findWatchPath unix (watching [?e]) ''a/notes.ini'' = Some ?e"
    by (simp add: findWatchPath_def watching_def unix_eval)
  have m: "Match unix ''*.txt'' (snd (Split unix ''a/notes.ini'')) = (False, None)"
    by (simp add: unix_eval)
  have "filterByPattern unix (watching [?e]) ''a/notes.ini''"
    using filterByPattern_file [OF f] by simp
  with f m show ?thesis by simp
qed

text \<open>
  Claim C10. When the path resolves to an entry, an operation with no bit set passes
  \<^verbatim>\<open>filterByOp\<close>, whatever the mask of the entry.
\<close>

theorem filterByOp_zero:
  "findWatchPath L fw pth = Some e \<Longrightarrow> filterByOp L fw pth 0"
  by (simp add: filterByOp_def)

text \<open>The theorem at a single-bit mask and at the zero mask.\<close>

theorem filterByOp_zero_witness:
  "findWatchPath unix exW ''testdir/test.txt'' = Some exF \<and> ops exF = Chmod
   \<and> filterByOp unix exW ''testdir/test.txt'' 0
   \<and> findWatchPath unix (watching [fileEntry ''f'' 0]) ''f'' = Some (fileEntry ''f'' 0)
   \<and> filterByOp unix (watching [fileEntry ''f'' 0]) ''f'' 0"
proof -
  have f0: "findWatchPath unix (watching [fileEntry ''f'' 0]) ''f'' = Some (fileEntry ''f'' 0)"
    by (simp add: findWatchPath_def ex_eval unix_eval)
  have o: "ops exF = Chmod" by (simp add: ex_eval)
  show ?thesis
    using filterByOp_zero [OF exW_finds_file] filterByOp_zero [OF f0] exW_finds_file f0 o
    by simp
qed

section \<open>Properties of \<^verbatim>\<open>Close\<close>\<close>

lemma Close_closed: "isclosed fw \<Longrightarrow> Close E fw = Ok (None, fw)"
  by (simp add: Close_def)

lemma CloseTimes_closed: "isclosed fw \<Longrightarrow> CloseTimes E n fw = Ok (replicate n None, fw)"
  by (induction n) (simp_all add: Close_closed)

text \<open>
  Claim C8. \<^verbatim>\<open>Close\<close> is idempotent. On a watcher that is open (the flag is unset and the
  channel \<^verbatim>\<open>close\<close> is open, as \<^verbatim>\<open>NewFileSystemWatcher\<close> leaves it), \<open>n + 1\<close> calls
  in a row all return, none panics: the first returns what the \<^verbatim>\<open>Close\<close> of the fsnotify
  watcher returns, every later one returns nil; the channel is closed by the first call and
  by no other (closing it again would panic), and the state of the fsnotify watcher at the
  end is the one its \<^verbatim>\<open>Close\<close> produced once, so that it was called exactly once. On a
  watcher that is closed already, every call returns nil and changes nothing.
\<close>

theorem Close_idempotent:
  "(\<not> isclosed fw \<and> \<not> close fw \<longrightarrow>
      CloseTimes E (Suc n) fw =
        Ok (fst (wClose E (watcher fw)) # replicate n None,
            fw\<lparr>isclosed := True, close := True, watcher := snd (wClose E (watcher fw))\<rparr>))
   \<and> (isclosed fw \<longrightarrow> CloseTimes E n fw = Ok (replicate n None, fw))"
proof (intro conjI impI)
  assume open_: "\<not> isclosed fw \<and> \<not> close fw"
  let ?fw' = "fw\<lparr>isclosed := True, close := True, watcher := snd (wClose E (watcher fw))\<rparr>"
  from open_ have first: "Close E fw = Ok (fst (wClose E (watcher fw)), ?fw')"
    by (simp add: Close_def Let_def split: prod.splits)
  have "isclosed ?fw'" by simp
  then have rest: "CloseTimes E n ?fw' = Ok (replicate n None, ?fw')"
    by (rule CloseTimes_closed)
  show "CloseTimes E (Suc n) fw = Ok (fst (wClose E (watcher fw)) # replicate n None, ?fw')"
    using first rest by simp
next
  assume "isclosed fw"
  then show "CloseTimes E n fw = Ok (replicate n None, fw)" by (rule CloseTimes_closed)
qed

text \<open>
  The theorem at three calls on a fresh watcher whose fsnotify watcher counts the calls
  of its \<^verbatim>\<open>Close\<close>, and at two more calls on the watcher they leave: the count is 1.
\<close>

theorem Close_idempotent_witness:
  "\<not> isclosed (watching []) \<and> \<not> close (watching [])
   \<and> CloseTimes (exSys []) 3 (watching []) =
       Ok ([None, None, None],
           \<lparr>watcher = \<lparr>watched = [], closes = 1\<rparr>, watchPaths = [],
            isclosed = True, close = True\<rparr>)
   \<and> isclosed \<lparr>watcher = \<lparr>watched = [], closes = 1\<rparr>, watchPaths = [],
                isclosed = True, close = True\<rparr>
   \<and> CloseTimes (exSys []) 2
         \<lparr>watcher = \<lparr>watched = [], closes = 1\<rparr>, watchPaths = [],
          isclosed = True, close = True\<rparr> =
       Ok ([None, None],
           \<lparr>watcher = \<lparr>watched = [], closes = 1\<rparr>, watchPaths = [],
            isclosed = True, close = True\<rparr>)"
proof -
  have o: "\<not> isclosed (watching []) \<and> \<not> close (watching [])" by (simp add: watching_def)
  have a: "CloseTimes (exSys []) (Suc 2) (watching []) =
       Ok ([None, None, None],
           \<lparr>watcher = \<lparr>watched = [], closes = 1\<rparr>, watchPaths = [],
            isclosed = True, close = True\<rparr>)"
    using Close_idempotent [of "watching []" "exSys []" 2, THEN conjunct1, rule_format, OF o]
    by (simp add: watching_def exSys_def numeral_2_eq_2)
  have b: "CloseTimes (exSys []) 2
         \<lparr>watcher = \<lparr>watched = [], closes = 1\<rparr>, watchPaths = [],
          isclosed = True, close = True\<rparr> =
       Ok ([None, None],
           \<lparr>watcher = \<lparr>watched = [], closes = 1\<rparr>, watchPaths = [],
            isclosed = True, close = True\<rparr>)"
    using Close_idempotent [of "\<lparr>watcher = \<lparr>watched = [], closes = 1\<rparr>, watchPaths = [],
          isclosed = True, close = True\<rparr>" "exSys []" 2, THEN conjunct2]
    by (simp add: numeral_2_eq_2)
  have three: "(3::nat) = Suc 2" by simp
  show ?thesis using o a b unfolding three by simp
qed

section \<open>Properties of \<^verbatim>\<open>WaitEvent\<close> and \<^verbatim>\<open>NotifyEvent\<close>\<close>

lemma WaitEvent_skips:
  "\<forall>x\<in>set pre. \<exists>raw. x = FromEvents raw \<and>
       \<not> (filterByOp L fw (evName raw) (evOp raw) \<and> filterByPattern L fw (evName raw))
   \<Longrightarrow> WaitEvent L fw (pre @ sels) = WaitEvent L fw sels"
  by (induction pre) auto

lemma WaitEvent_event:
  "WaitEvent L fw sels = Some ((Some e, err), rest) \<Longrightarrow>
     err = None \<and> (\<exists>raw pre. sels = pre @ FromEvents raw # rest \<and> e = wrapEvent raw
        \<and> filterByOp L fw (evName raw) (evOp raw) \<and> filterByPattern L fw (evName raw))"
proof (induction sels)
  case Nil
  then show ?case by simp
next
  case (Cons x sels)
  show ?case
  proof (cases x)
    case (FromEvents raw)
    show ?thesis
    proof (cases "filterByOp L fw (evName raw) (evOp raw) \<and> filterByPattern L fw (evName raw)")
      case True
      with Cons.prems FromEvents have "err = None" "e = wrapEvent raw" "rest = sels"
        by auto
      with True FromEvents show ?thesis by (intro conjI exI [of _ raw] exI [of _ "[]"]) auto
    next
      case False
      with Cons.prems FromEvents have "WaitEvent L fw sels = Some ((Some e, err), rest)"
        by (auto split: if_splits)
      from Cons.IH [OF this] obtain raw' pre where
        "err = None" "sels = pre @ FromEvents raw' # rest" "e = wrapEvent raw'"
        "filterByOp L fw (evName raw') (evOp raw')" "filterByPattern L fw (evName raw')"
        by blast
      then show ?thesis using FromEvents
        by (intro conjI exI [of _ raw'] exI [of _ "x # pre"]) auto
    qed
  next
    case (FromErrors e')
    with Cons.prems show ?thesis by simp
  next
    case FromClose
    with Cons.prems show ?thesis by simp
  qed
qed

lemma exW_ini: "filterByOp unix exW ''testdir/x.ini'' Write"
  "\<not> filterByPattern unix exW ''testdir/x.ini''"
  by code_simp+

lemma exW_write: "\<not> filterByOp unix exW ''testdir/test.txt'' Write"
  by code_simp

lemma exW_chmod: "filterByOp unix exW ''testdir/test.txt'' Chmod"
  "filterByPattern unix exW ''testdir/test.txt''"
  by code_simp+

text \<open>
  Claim C7. \<^verbatim>\<open>WaitEvent\<close> never returns an event that fails a filter: when it returns an
  event, the error is nil and the event is the wrapping of a raw event it received that
  passes both \<^verbatim>\<open>filterByOp\<close> and \<^verbatim>\<open>filterByPattern\<close> for the registry of the call.
  Raw events rejected by either filter are dropped without a return: after any run of them
  the call goes on as if they had not been there. A raw error is returned at once, wrapped,
  as the error of the call. The shutdown signal makes the call return
  \<^verbatim>\<open>ErrWatcherClosed\<close>.
\<close>

theorem WaitEvent_filters:
  "(\<forall>e err rest. WaitEvent L fw sels = Some ((Some e, err), rest) \<longrightarrow>
       err = None \<and>
       (\<exists>raw pre. sels = pre @ FromEvents raw # rest \<and> e = wrapEvent raw \<and>
          filterByOp L fw (evName raw) (evOp raw) \<and> filterByPattern L fw (evName raw)))
   \<and> ((\<forall>x\<in>set pre. \<exists>raw. x = FromEvents raw \<and>
          \<not> (filterByOp L fw (evName raw) (evOp raw) \<and> filterByPattern L fw (evName raw)))
        \<longrightarrow> WaitEvent L fw (pre @ sels) = WaitEvent L fw sels)
   \<and> WaitEvent L fw (FromErrors (Some x) # sels) = Some ((None, Some (wrapErr x)), sels)
   \<and> WaitEvent L fw (FromClose # sels) = Some ((None, Some ErrWatcherClosed), sels)"
proof (intro conjI allI impI)
  fix e err rest
  assume "WaitEvent L fw sels = Some ((Some e, err), rest)"
  from WaitEvent_event [OF this]
  show "err = None" and "\<exists>raw pre. sels = pre @ FromEvents raw # rest \<and> e = wrapEvent raw \<and>
          filterByOp L fw (evName raw) (evOp raw) \<and> filterByPattern L fw (evName raw)"
    by simp_all
next
  assume "\<forall>x\<in>set pre. \<exists>raw. x = FromEvents raw \<and>
          \<not> (filterByOp L fw (evName raw) (evOp raw) \<and> filterByPattern L fw (evName raw))"
  then show "WaitEvent L fw (pre @ sels) = WaitEvent L fw sels" by (rule WaitEvent_skips)
next
  show "WaitEvent L fw (FromErrors (Some x) # sels) = Some ((None, Some (wrapErr x)), sels)"
    by simp
next
  show "WaitEvent L fw (FromClose # sels) = Some ((None, Some ErrWatcherClosed), sels)"
    by simp
qed

text \<open>
  The theorem at the registry of the examples: the chmod of the watched file is
  returned, also after the two events the filters reject.
\<close>

theorem WaitEvent_filters_witness:
  "WaitEvent unix exW [FromEvents exEvChmod, FromClose] =
      Some ((Some (wrapEvent exEvChmod), None), [FromClose])
   \<and> filterByOp unix exW (evName exEvChmod) (evOp exEvChmod)
   \<and> filterByPattern unix exW (evName exEvChmod)
   \<and> \<not> filterByPattern unix exW (evName exEvIni)
   \<and> \<not> filterByOp unix exW (evName exEvWrite) (evOp exEvWrite)
   \<and> WaitEvent unix exW ([FromEvents exEvIni, FromEvents exEvWrite] @ [FromEvents exEvChmod, FromClose]) =
      Some ((Some (wrapEvent exEvChmod), None), [FromClose])
   \<and> (\<exists>raw pre. [FromEvents exEvChmod, FromClose] = pre @ FromEvents raw # [FromClose] \<and>
         wrapEvent exEvChmod = wrapEvent raw \<and>
         filterByOp unix exW (evName raw) (evOp raw) \<and> filterByPattern unix exW (evName raw))"
proof -
  have acc: "filterByOp unix exW (evName exEvChmod) (evOp exEvChmod)"
    "filterByPattern unix exW (evName exEvChmod)"
    by (simp_all add: exEvChmod_def exW_chmod)
  have rej: "\<not> filterByPattern unix exW (evName exEvIni)"
    "\<not> filterByOp unix exW (evName exEvWrite) (evOp exEvWrite)"
    by (simp_all add: exEvIni_def exEvWrite_def exW_ini exW_write)
  have w: "WaitEvent unix exW [FromEvents exEvChmod, FromClose] =
      Some ((Some (wrapEvent exEvChmod), None), [FromClose])"
    using acc by simp
  have pre: "\<forall>x\<in>set [FromEvents exEvIni, FromEvents exEvWrite]. \<exists>raw. x = FromEvents raw \<and>
          \<not> (filterByOp unix exW (evName raw) (evOp raw) \<and> filterByPattern unix exW (evName raw))"
    using rej by simp
  from WaitEvent_filters [of unix exW "[FromEvents exEvChmod, FromClose]"
        "[FromEvents exEvIni, FromEvents exEvWrite]", THEN conjunct2, THEN conjunct1, THEN mp, OF pre]
  have skip: "WaitEvent unix exW ([FromEvents exEvIni, FromEvents exEvWrite] @ [FromEvents exEvChmod, FromClose]) =
      WaitEvent unix exW [FromEvents exEvChmod, FromClose]" .
  from WaitEvent_filters [of unix exW "[FromEvents exEvChmod, FromClose]", THEN conjunct1,
        rule_format, OF w]
  have passed: "\<exists>raw pre. [FromEvents exEvChmod, FromClose] = pre @ FromEvents raw # [FromClose] \<and>
         wrapEvent exEvChmod = wrapEvent raw \<and>
         filterByOp unix exW (evName raw) (evOp raw) \<and> filterByPattern unix exW (evName raw)"
    by (rule conjunct2)
  show ?thesis using acc rej w skip passed by (intro conjI) simp_all
qed

lemma wrapErr_not_closed: "wrapErr e \<noteq> ErrWatcherClosed"
  by (cases e) simp_all

lemma NotifyEvent_blocked:
  "WaitEvent L fw sels = None \<Longrightarrow> NotifyEvent L fw sels = ([], False)"
  by (subst NotifyEvent.simps) simp

lemma NotifyEvent_closed:
  "WaitEvent L fw sels = Some ((ev, Some ErrWatcherClosed), rest) \<Longrightarrow>
     NotifyEvent L fw sels = ([], True)"
  by (subst NotifyEvent.simps) simp

lemma NotifyEvent_error:
  "WaitEvent L fw sels = Some ((ev, Some e), rest) \<Longrightarrow> e \<noteq> ErrWatcherClosed \<Longrightarrow>
     NotifyEvent L fw sels =
       ((None, Some e) # fst (NotifyEvent L fw rest), snd (NotifyEvent L fw rest))"
  by (subst NotifyEvent.simps) (simp split: prod.splits)

lemma NotifyEvent_event:
  "WaitEvent L fw sels = Some ((ev, None), rest) \<Longrightarrow>
     NotifyEvent L fw sels =
       ((ev, None) # fst (NotifyEvent L fw rest), snd (NotifyEvent L fw rest))"
  by (subst NotifyEvent.simps) (simp split: prod.splits)

lemma waitResults_blocked:
  "WaitEvent L fw sels = None \<Longrightarrow> waitResults L fw sels = []"
  by (subst waitResults.simps) simp

lemma waitResults_step:
  "WaitEvent L fw sels = Some (r, rest) \<Longrightarrow> waitResults L fw sels = r # waitResults L fw rest"
  by (subst waitResults.simps) simp

text \<open>
  Claim C9. The goroutine of \<^verbatim>\<open>NotifyEvent\<close> calls \<^verbatim>\<open>notify(event, nil)\<close> for every
  result of \<^verbatim>\<open>WaitEvent\<close> without error and \<^verbatim>\<open>notify(nil, err)\<close> for every result with
  an error, in order, up to the first result \<^verbatim>\<open>ErrWatcherClosed\<close>, for which it makes no
  call: the calls are the \<open>notifyArgs\<close> of the results before the first
  \<^verbatim>\<open>ErrWatcherClosed\<close>; the goroutine has returned exactly when such a result came; and
  no call ever carries \<^verbatim>\<open>ErrWatcherClosed\<close>.
\<close>

theorem NotifyEvent_calls:
  "fst (NotifyEvent L fw sels) =
      map notifyArgs (takeWhile (\<lambda>r. snd r \<noteq> Some ErrWatcherClosed) (waitResults L fw sels))
   \<and> (snd (NotifyEvent L fw sels) \<longleftrightarrow>
        (\<exists>r\<in>set (waitResults L fw sels). snd r = Some ErrWatcherClosed))
   \<and> (\<forall>c\<in>set (fst (NotifyEvent L fw sels)). snd c \<noteq> Some ErrWatcherClosed)"
  (is "?A sels \<and> ?B sels \<and> ?C sels")
proof (induction sels rule: length_induct)
  case (1 sels)
  show ?case
  proof (cases "WaitEvent L fw sels")
    case None
    have "?A sels" by (simp add: NotifyEvent_blocked [OF None] waitResults_blocked [OF None])
    moreover have "?B sels"
      by (simp add: NotifyEvent_blocked [OF None] waitResults_blocked [OF None])
    moreover have "?C sels"
      by (simp add: NotifyEvent_blocked [OF None])
    ultimately show ?thesis by (intro conjI)
  next
    case (Some a)
    obtain ev err rest where a: "a = ((ev, err), rest)" by (cases a) auto
    with Some have W: "WaitEvent L fw sels = Some ((ev, err), rest)" by simp
    have IH: "?A rest \<and> ?B rest \<and> ?C rest"
      by (rule "1.IH" [rule_format, OF WaitEvent_consumes [OF W]])
    note IH1 = IH [THEN conjunct1]
      and IH2 = IH [THEN conjunct2, THEN conjunct1]
      and IH3 = IH [THEN conjunct2, THEN conjunct2]
    note R = waitResults_step [OF W]
    show ?thesis
    proof (cases err)
      case None
      with W have W': "WaitEvent L fw sels = Some ((ev, None), rest)" by simp
      note N = NotifyEvent_event [OF W']
      have "?A sels" using IH1 None unfolding N R by (simp add: notifyArgs_def)
      moreover have "?B sels" using IH2 None unfolding N R by simp
      moreover have "?C sels" using IH3 None unfolding N R by simp
      ultimately show ?thesis by (intro conjI)
    next
      case (Some e)
      show ?thesis
      proof (cases "e = ErrWatcherClosed")
        case True
        with W Some have W': "WaitEvent L fw sels = Some ((ev, Some ErrWatcherClosed), rest)"
          by simp
        note N = NotifyEvent_closed [OF W']
        have "?A sels" using True Some unfolding N R by simp
        moreover have "?B sels" using True Some unfolding N R by simp
        moreover have "?C sels" unfolding N by simp
        ultimately show ?thesis by (intro conjI)
      next
        case False
        from W Some have W': "WaitEvent L fw sels = Some ((ev, Some e), rest)" by simp
        note N = NotifyEvent_error [OF W' False]
        have "?A sels" using IH1 False Some unfolding N R by (simp add: notifyArgs_def)
        moreover have "?B sels" using IH2 False Some unfolding N R by simp
        moreover have "?C sels" using IH3 False unfolding N R by simp
        ultimately show ?thesis by (intro conjI)
      qed
    qed
  qed
qed

text \<open>
  The theorem at the run of the examples: one accepted event, one error, then the
  shutdown, after which the event still waiting is not delivered.
\<close>

theorem NotifyEvent_calls_witness:
  "waitResults unix exW exRun =
     [(Some (wrapEvent exEvChmod), None), (None, Some (StackErr (External ''read error''))),
      (None, Some ErrWatcherClosed), (Some (wrapEvent exEvChmod), None)]
   \<and> NotifyEvent unix exW exRun =
     ([(Some (wrapEvent exEvChmod), None), (None, Some (StackErr (External ''read error'')))],
      True)"
proof -
  have wr: "waitResults unix exW exRun =
     [(Some (wrapEvent exEvChmod), None), (None, Some (StackErr (External ''read error''))),
      (None, Some ErrWatcherClosed), (Some (wrapEvent exEvChmod), None)]"
    by code_simp
  note T = NotifyEvent_calls [of unix exW exRun]
  have a: "fst (NotifyEvent unix exW exRun) =
     [(Some (wrapEvent exEvChmod), None), (None, Some (StackErr (External ''read error'')))]"
    using T [THEN conjunct1] unfolding wr by (simp add: notifyArgs_def)
  have b: "snd (NotifyEvent unix exW exRun)"
    using T [THEN conjunct2, THEN conjunct1] unfolding wr by simp
  have "NotifyEvent unix exW exRun =
     ([(Some (wrapEvent exEvChmod), None), (None, Some (StackErr (External ''read error'')))],
      True)"
    using a b by (simp add: prod_eq_iff)
  with wr show ?thesis by simp
qed

section \<open>Properties of \<^verbatim>\<open>AddDir\<close> and \<^verbatim>\<open>RemoveDir\<close>\<close>

lemma addDir_ok:
  assumes "statIsDir E p = Inr True" and "fst (wAdd E (watcher fw) p) = None"
  shows "addDir E fw p pat os =
           (None, fw\<lparr>watcher := snd (wAdd E (watcher fw) p),
                      watchPaths := watchPaths fw @ [dirEntry p pat os]\<rparr>)"
proof -
  obtain w' where w: "wAdd E (watcher fw) p = (None, w')"
    using assms(2) by (cases "wAdd E (watcher fw) p") auto
  show ?thesis
    by (simp add: addDir_def isDir_def dirEntry_def assms(1) w)
qed

lemma addDirWalkFn_ok:
  assumes "statIsDir E p = Inr True" and "fst (wAdd E (watcher fw) p) = None"
  shows "addDirWalkFn E pat os p (Some (FileInfo True)) None fw =
           Ok (None, fw\<lparr>watcher := snd (wAdd E (watcher fw) p),
                         watchPaths := watchPaths fw @ [dirEntry p pat os]\<rparr>)"
  by (simp add: addDirWalkFn_def addDir_ok [OF assms])

lemma addDirWalkFn_file:
  "addDirWalkFn E pat os p (Some (FileInfo False)) err fw = Ok (None, fw)"
  by (simp add: addDirWalkFn_def)

lemma addDirWalkFn_nil_err:
  "\<exists>fw'. addDirWalkFn E pat os p (Some fi) None fw = Ok (None, fw')"
  by (simp add: addDirWalkFn_def split: prod.splits)

lemma walk_addDir_registers:
  "(\<forall>p\<in>set (walkDirs L pth t). statIsDir E p = Inr True \<and> (\<forall>w. fst (wAdd E w p) = None))
     \<longrightarrow> (\<forall>fw. \<exists>fw'. walk L pth t (addDirWalkFn E pat os) fw = Ok (None, fw') \<and>
            watchPaths fw' = watchPaths fw @ map (\<lambda>p. dirEntry p pat os) (walkDirs L pth t))"
  and walkNames_addDir_registers:
  "(\<forall>p\<in>set (walkDirsNames L pth names).
       statIsDir E p = Inr True \<and> (\<forall>w. fst (wAdd E w p) = None))
     \<longrightarrow> (\<forall>fw. \<exists>fw'. walkNames L pth names (addDirWalkFn E pat os) fw = Ok (None, fw') \<and>
            watchPaths fw' =
              watchPaths fw @ map (\<lambda>p. dirEntry p pat os) (walkDirsNames L pth names))"
proof (induction L pth t and L pth names rule: walkDirs_walkDirsNames.induct)
  case (1 L pth)
  show ?case by (simp add: addDirWalkFn_file)
next
  case (2 L pth names)
  show ?case
  proof (intro impI allI)
    fix fw :: "'a FileSystemWatcher"
    assume ok: "\<forall>p\<in>set (walkDirs L pth (DirNode names)).
                  statIsDir E p = Inr True \<and> (\<forall>w. fst (wAdd E w p) = None)"
    then have here: "statIsDir E pth = Inr True" "fst (wAdd E (watcher fw) pth) = None"
      by simp_all
    let ?fw1 = "fw\<lparr>watcher := snd (wAdd E (watcher fw) pth),
                     watchPaths := watchPaths fw @ [dirEntry pth pat os]\<rparr>"
    from ok have "\<forall>p\<in>set (walkDirsNames L pth names).
                  statIsDir E p = Inr True \<and> (\<forall>w. fst (wAdd E w p) = None)"
      by simp
    with "2.IH" obtain fw' where
      fw': "walkNames L pth names (addDirWalkFn E pat os) ?fw1 = Ok (None, fw')"
           "watchPaths fw' =
              watchPaths ?fw1 @ map (\<lambda>p. dirEntry p pat os) (walkDirsNames L pth names)"
      by blast
    show "\<exists>fw'. walk L pth (DirNode names) (addDirWalkFn E pat os) fw = Ok (None, fw') \<and>
            watchPaths fw' =
              watchPaths fw @ map (\<lambda>p. dirEntry p pat os) (walkDirs L pth (DirNode names))"
      using fw' by (simp add: addDirWalkFn_ok [OF here])
  qed
next
  case (3 L pth)
  show ?case by simp
next
  case (4 L pth entry names)
  show ?case
  proof (intro impI allI)
    fix fw :: "'a FileSystemWatcher"
    assume ok: "\<forall>p\<in>set (walkDirsNames L pth (entry # names)).
                  statIsDir E p = Inr True \<and> (\<forall>w. fst (wAdd E w p) = None)"
    then have ok1: "\<forall>p\<in>set (walkDirs L (Join L pth (fst entry)) (snd entry)).
                  statIsDir E p = Inr True \<and> (\<forall>w. fst (wAdd E w p) = None)"
      and ok2: "\<forall>p\<in>set (walkDirsNames L pth names).
                  statIsDir E p = Inr True \<and> (\<forall>w. fst (wAdd E w p) = None)"
      by simp_all
    from "4.IH"(1) ok1 obtain fw1 where
      fw1: "walk L (Join L pth (fst entry)) (snd entry) (addDirWalkFn E pat os) fw = Ok (None, fw1)"
           "watchPaths fw1 = watchPaths fw @
              map (\<lambda>p. dirEntry p pat os) (walkDirs L (Join L pth (fst entry)) (snd entry))"
      by blast
    from "4.IH"(2) ok2 obtain fw2 where
      fw2: "walkNames L pth names (addDirWalkFn E pat os) fw1 = Ok (None, fw2)"
           "watchPaths fw2 = watchPaths fw1 @
              map (\<lambda>p. dirEntry p pat os) (walkDirsNames L pth names)"
      by blast
    show "\<exists>fw'. walkNames L pth (entry # names) (addDirWalkFn E pat os) fw = Ok (None, fw') \<and>
            watchPaths fw' = watchPaths fw @
              map (\<lambda>p. dirEntry p pat os) (walkDirsNames L pth (entry # names))"
      using fw1 fw2 by simp
  qed
qed




lemma walk_addDir_returns_nil:
  "\<forall>fw. \<exists>fw'. walk L pth t (addDirWalkFn E pat os) fw = Ok (None, fw')"
  and walkNames_addDir_returns_nil:
  "\<forall>fw. \<exists>fw'. walkNames L pth names (addDirWalkFn E pat os) fw = Ok (None, fw')"
proof (induction L pth t and L pth names rule: walkDirs_walkDirsNames.induct)
  case (1 L pth)
  show ?case by (simp add: addDirWalkFn_file)
next
  case (2 L pth names)
  show ?case
  proof
    fix fw :: "'a FileSystemWatcher"
    from addDirWalkFn_nil_err [of E pat os pth "FileInfo True" fw] obtain fw1 where
      "addDirWalkFn E pat os pth (Some (FileInfo True)) None fw = Ok (None, fw1)" by blast
    moreover from "2.IH" obtain fw2 where
      "walkNames L pth names (addDirWalkFn E pat os) fw1 = Ok (None, fw2)" by blast
    ultimately show "\<exists>fw'. walk L pth (DirNode names) (addDirWalkFn E pat os) fw = Ok (None, fw')"
      by simp
  qed
next
  case (3 L pth)
  show ?case by simp
next
  case (4 L pth entry names)
  show ?case
  proof
    fix fw :: "'a FileSystemWatcher"
    from "4.IH"(1) obtain fw1 where
      "walk L (Join L pth (fst entry)) (snd entry) (addDirWalkFn E pat os) fw = Ok (None, fw1)"
      by blast
    moreover from "4.IH"(2) obtain fw2 where
      "walkNames L pth names (addDirWalkFn E pat os) fw1 = Ok (None, fw2)" by blast
    ultimately show "\<exists>fw'. walkNames L pth (entry # names) (addDirWalkFn E pat os) fw = Ok (None, fw')"
      by simp
  qed
qed

text \<open>
  Once the root is registered, a recursive \<^verbatim>\<open>AddDir\<close> returns nil whatever
  \<^verbatim>\<open>addDir\<close> returns inside the walk: the function of the walk tests the error \<^verbatim>\<open>Walk\<close>
  passed in, which is nil, and not the error of \<^verbatim>\<open>addDir\<close>.
\<close>

lemma AddDir_walk_never_reports:
  assumes "fst (addDir E fw root pat os) = None" and "treeAt E root = Inr t"
  shows "\<exists>fw'. AddDir E L fw root pat os True = Ok (None, fw')"
proof -
  obtain fw1 where a: "addDir E fw root pat os = (None, fw1)"
    using assms(1) by (cases "addDir E fw root pat os") auto
  from walk_addDir_returns_nil [of L root t E pat os] obtain fw' where
    "walk L root t (addDirWalkFn E pat os) fw1 = Ok (None, fw')" by blast
  then show ?thesis by (simp add: AddDir_def a Walk_def assms(2))
qed

text \<open>
  Claim C3, on the code. fsnotify refuses \<^verbatim>\<open>d/sub\<close>: \<^verbatim>\<open>addDir\<close> fails for that
  subdirectory during the walk. The entries made before stay, the walk goes on to
  \<^verbatim>\<open>d/sub/deep\<close>, and \<^verbatim>\<open>AddDir\<close> returns nil: the failure does not reach the caller.
\<close>

theorem AddDir_subdir_failure_returns_nil:
  "wAdd (exSys [''d/sub'']) \<lparr>watched = [''d''], closes = 0\<rparr> ''d/sub'' =
      (Some (External ''no space left on device''), \<lparr>watched = [''d''], closes = 0\<rparr>)
   \<and> AddDir (exSys [''d/sub'']) unix (watching []) ''d'' ''*.txt'' AllOps True =
      Ok (None,
          \<lparr>watcher = \<lparr>watched = [''d'', ''d/sub/deep''], closes = 0\<rparr>,
           watchPaths = [dirEntry ''d'' ''*.txt'' AllOps, dirEntry ''d'' ''*.txt'' AllOps,
                         dirEntry ''d/sub/deep'' ''*.txt'' AllOps],
           isclosed = False, close = False\<rparr>)"
  by code_simp

text \<open>
  The same in \<^verbatim>\<open>RemoveDir\<close>: the walk reaches the root again, fsnotify no longer
  watches it, \<^verbatim>\<open>removeDir\<close> fails, and \<^verbatim>\<open>RemoveDir\<close> returns nil, leaving the second
  entry of the root in the registry.
\<close>

lemma RemoveDir_root_failure_returns_nil:
  "RemoveDir (exSys []) unix exAdded ''d'' True =
      Ok (None,
          \<lparr>watcher = \<lparr>watched = [], closes = 0\<rparr>,
           watchPaths = [dirEntry ''d'' ''*.txt'' AllOps],
           isclosed = False, close = False\<rparr>)"
  by code_simp

end
